theory Spec2Isabelle
  imports Complex_Main "HOL-Library.Char_ord" "HOL-Library.List_Lexorder"
begin

section \<open>Python values and exceptions\<close>

text \<open>
  The scripts are Python. An exception that a function lets escape is the \<open>Inl\<close> branch of
  a sum, a returned value the \<open>Inr\<close> branch. Python's \<open>int\<close> is unbounded and is HOL's
  \<open>int\<close>. In \<open>models.py\<close> and in the solutions a Python \<open>str\<close> is a \<open>string\<close>, a list of
  characters read as the code points 0 to 255; strings are ordered as Python orders them, by
  code point and lexicographically.
\<close>

datatype exn =
    IndexError
  | ZeroDivisionError
  | TypeError
  | OverflowError
  | ValueError string
  | FileNotFoundError
  | NotADirectoryError
  | IsADirectoryError
  | UnicodeDecodeError

section \<open>solutions/01\_basics\_solutions.py: grade\<close>

definition grade :: "int \<Rightarrow> string" where
  "grade score =
     (if score \<ge> 90 then ''A''
      else if score \<ge> 80 then ''B''
      else if score \<ge> 70 then ''C''
      else if score \<ge> 60 then ''D''
      else ''F'')"

section \<open>src/oop/models.py: the two user classes\<close>

text \<open>
  \<open>User\<close> is the hand-written class, \<open>UserDC\<close> the dataclass. The field \<open>id\<close> of the source
  is \<open>u_id\<close> and \<open>dc_id\<close> here (\<open>id\<close> is HOL's identity function), and the other fields carry
  the same prefixes, since the two classes share their field names. \<open>fingerprint\<close> is the
  dataclass's fifth field: \<open>None\<close> after construction and a digest once
  \<open>compute_fingerprint\<close> has run. It is declared with \<open>field(default=None, init=False,
  repr=False)\<close>, so it stays a compared field (\<open>compare\<close> keeps its default \<open>True\<close>).
\<close>

record User =
  u_id :: int
  u_name :: string
  u_email :: string
  u_active :: bool

record UserDC =
  dc_id :: int
  dc_name :: string
  dc_email :: string
  dc_active :: bool
  dc_fingerprint :: "string option"

text \<open>The objects that \<open>active_users\<close> and \<open>dedupe_users_by_id\<close> receive: \<open>User | UserDC\<close>.\<close>

datatype user_obj = UserObj User | UserDCObj UserDC

fun obj_id :: "user_obj \<Rightarrow> int" where
  "obj_id (UserObj u) = u_id u"
| "obj_id (UserDCObj d) = dc_id d"

subsection \<open>Equality\<close>

text \<open>
  \<open>User.__eq__\<close> returns \<open>NotImplemented\<close> (here \<open>None\<close>) when the other object is not a
  \<open>User\<close>, and otherwise compares the two ids.
\<close>

fun User_eq :: "User \<Rightarrow> user_obj \<Rightarrow> bool option" where
  "User_eq self (UserObj other) = Some (u_id self = u_id other)"
| "User_eq self (UserDCObj other) = None"

text \<open>
  \<open>@dataclass(eq=True)\<close> generates \<open>__eq__\<close>: \<open>NotImplemented\<close> unless the other object has
  the very same class, and otherwise the comparison of the tuples of all compared fields, in
  declaration order.
\<close>

fun UserDC_eq :: "UserDC \<Rightarrow> user_obj \<Rightarrow> bool option" where
  "UserDC_eq self (UserDCObj other) =
     Some ((dc_id self, dc_name self, dc_email self, dc_active self, dc_fingerprint self)
         = (dc_id other, dc_name other, dc_email other, dc_active other, dc_fingerprint other))"
| "UserDC_eq self (UserObj other) = None"

fun dunder_eq :: "user_obj \<Rightarrow> user_obj \<Rightarrow> bool option" where
  "dunder_eq (UserObj u) other = User_eq u other"
| "dunder_eq (UserDCObj d) other = UserDC_eq d other"

text \<open>
  The operator \<open>a == b\<close>: the left operand's \<open>__eq__\<close>, then the right operand's when the
  left one answers \<open>NotImplemented\<close>, then object identity when both do. Both answer
  \<open>NotImplemented\<close> only for objects of different classes, which are never the same object.
\<close>

definition py_eq :: "user_obj \<Rightarrow> user_obj \<Rightarrow> bool" where
  "py_eq a b =
     (case dunder_eq a b of
        Some r \<Rightarrow> r
      | None \<Rightarrow> (case dunder_eq b a of Some r \<Rightarrow> r | None \<Rightarrow> False))"

subsection \<open>domain\<close>

text \<open>
  \<open>str.split(sep)\<close> for a separator of one character: the pieces between the occurrences of
  the separator, the empty pieces included, so the result is never the empty list.
\<close>

fun split_sep :: "char \<Rightarrow> string \<Rightarrow> string list" where
  "split_sep sep [] = [[]]"
| "split_sep sep (c # cs) =
     (if c = sep then [] # split_sep sep cs
      else (case split_sep sep cs of
              [] \<Rightarrow> [[c]]
            | piece # pieces \<Rightarrow> (c # piece) # pieces))"

text \<open>\<open>xs[i]\<close>: a negative index counts from the end, an index out of range raises.\<close>

definition getitem :: "'a list \<Rightarrow> int \<Rightarrow> exn + 'a" where
  "getitem xs i =
     (let j = (if i < 0 then i + int (length xs) else i)
      in if j < 0 \<or> int (length xs) \<le> j then Inl IndexError else Inr (xs ! nat j))"

definition email_domain :: "string \<Rightarrow> exn + string" where
  "email_domain email = getitem (split_sep CHR ''@'' email) (- 1)"

definition User_domain :: "User \<Rightarrow> exn + string" where
  "User_domain self = email_domain (u_email self)"

definition UserDC_domain :: "UserDC \<Rightarrow> exn + string" where
  "UserDC_domain self = email_domain (dc_email self)"

subsection \<open>dedupe\_users\_by\_id\<close>

text \<open>The loop over \<open>users\<close>, with the set \<open>seen\<close> and the list \<open>result\<close> as its state.\<close>

fun dedupe_loop :: "user_obj list \<Rightarrow> int set \<Rightarrow> user_obj list \<Rightarrow> user_obj list" where
  "dedupe_loop [] seen result = result"
| "dedupe_loop (u # users) seen result =
     (if obj_id u \<notin> seen
      then dedupe_loop users (insert (obj_id u) seen) (result @ [u])
      else dedupe_loop users seen result)"

definition dedupe_users_by_id :: "user_obj list \<Rightarrow> user_obj list" where
  "dedupe_users_by_id users = dedupe_loop users {} []"

text \<open>
  The specification's words, as a second definition: the records of the input, in their
  order, that no earlier record shares its id with.
\<close>

definition first_occurrences :: "user_obj list \<Rightarrow> user_obj list" where
  "first_occurrences users =
     map (\<lambda>i. users ! i)
       (filter (\<lambda>i. obj_id (users ! i) \<notin> obj_id ` set (take i users)) [0..<length users])"

text \<open>
  The same loop with the result built front to back, for the proofs: what the loop appends
  to \<open>result\<close> when it starts with the set \<open>seen\<close>.
\<close>

fun keep_first :: "int set \<Rightarrow> user_obj list \<Rightarrow> user_obj list" where
  "keep_first seen [] = []"
| "keep_first seen (u # users) =
     (if obj_id u \<in> seen then keep_first seen users
      else u # keep_first (insert (obj_id u) seen) users)"

section \<open>solutions/01\_basics\_solutions.py: safe\_div\<close>

text \<open>
  \<open>safe_div\<close> is annotated for floats and called with ints and with a string, so its
  arguments are Python values of any type. The values modelled are \<open>None\<close>, booleans, ints,
  floats, strings and lists; of these only booleans, ints and floats divide (complex
  numbers and the numeric classes of the standard library are left out).

  A float is the rational number it denotes or one of the three special values; the two
  zeros are one value, as they are for Python's \<open>==\<close>.
\<close>

datatype pyfloat = Fin rat | PosInf | NegInf | NaN

datatype pyval =
    PNone
  | PBool bool
  | PInt int
  | PFloat pyfloat
  | PStr string
  | PList "pyval list"

subsection \<open>Rounding to binary64\<close>

text \<open>
  Python's float is the IEEE 754 binary64 format: 53 significant bits, exponents from
  \<open>-1022\<close> to \<open>1023\<close>, rounding to nearest with ties to even. \<open>bit_length\<close> is
  \<open>int.bit_length\<close>, \<open>floor_log2 q\<close> the exponent of the power of two at or below a positive
  \<open>q\<close>, and \<open>round64\<close> rounds to a multiple of the unit in the last place of the binade of
  \<open>q\<close> (of the smallest binade for a subnormal result).
\<close>

function bit_length :: "int \<Rightarrow> int" where
  "bit_length n = (if n \<le> 0 then 0 else 1 + bit_length (n div 2))"
  by pat_completeness auto
termination
  by (relation "measure nat") auto

declare bit_length.simps [simp del]

definition floor_log2 :: "rat \<Rightarrow> int" where
  "floor_log2 q =
     (if 1 \<le> q then bit_length \<lfloor>q\<rfloor> - 1
      else - bit_length (\<lceil>1 / q\<rceil> - 1))"

definition round_half_even :: "rat \<Rightarrow> int" where
  "round_half_even x =
     (let f = \<lfloor>x\<rfloor>; r = x - of_int f
      in if r < 1 / 2 then f
         else if 1 / 2 < r then f + 1
         else if even f then f else f + 1)"

definition round64 :: "rat \<Rightarrow> rat" where
  "round64 q =
     (if q = 0 then 0
      else let e = max (floor_log2 \<bar>q\<bar>) (- 1022);
               ulp = power_int 2 (e - 52)
           in sgn q * of_int (round_half_even (\<bar>q\<bar> / ulp)) * ulp)"

text \<open>
  The largest binary64 number is \<open>2^1024 - 2^971\<close>. A number of magnitude
  \<open>2^1024 - 2^970\<close> or more, half a unit above it, rounds to \<open>2^1024\<close>, which the format
  does not have: the result is an infinity.
\<close>

definition overflow_bound :: int where
  "overflow_bound = 2 ^ 1024 - 2 ^ 970"

definition to_double :: "rat \<Rightarrow> pyfloat" where
  "to_double q =
     (if of_int overflow_bound \<le> q then PosInf
      else if q \<le> - of_int overflow_bound then NegInf
      else Fin (round64 q))"

subsection \<open>The operator /\<close>

text \<open>A \<open>bool\<close> is an \<open>int\<close> in Python: \<open>True\<close> is 1 and \<open>False\<close> is 0.\<close>

datatype num = NInt int | NFloat pyfloat

fun as_number :: "pyval \<Rightarrow> num option" where
  "as_number (PInt i) = Some (NInt i)"
| "as_number (PBool b) = Some (NInt (if b then 1 else 0))"
| "as_number (PFloat x) = Some (NFloat x)"
| "as_number v = None"

text \<open>
  \<open>int / int\<close>: division by zero is tested first; the quotient is rounded once, and a
  quotient too large for a float raises \<open>OverflowError\<close>.
\<close>

definition long_true_divide :: "int \<Rightarrow> int \<Rightarrow> exn + pyfloat" where
  "long_true_divide a b =
     (if b = 0 then Inl ZeroDivisionError
      else (case to_double (of_int a / of_int b) of
              Fin q \<Rightarrow> Inr (Fin q)
            | _ \<Rightarrow> Inl OverflowError))"

text \<open>
  A division with a float operand converts both operands to floats first, the left one
  before the right one, and an int too large for a float raises \<open>OverflowError\<close> there; only
  then is the divisor compared with zero. The quotient of two floats overflows to an
  infinity without an exception.
\<close>

fun convert_to_double :: "num \<Rightarrow> exn + pyfloat" where
  "convert_to_double (NFloat x) = Inr x"
| "convert_to_double (NInt i) =
     (case to_double (of_int i) of
        Fin q \<Rightarrow> Inr (Fin q)
      | _ \<Rightarrow> Inl OverflowError)"

declare convert_to_double.simps(2) [simp del]

fun ieee_div :: "pyfloat \<Rightarrow> pyfloat \<Rightarrow> pyfloat" where
  "ieee_div NaN y = NaN"
| "ieee_div x NaN = NaN"
| "ieee_div (Fin x) (Fin y) = to_double (x / y)"
| "ieee_div (Fin x) y = Fin 0"
| "ieee_div x (Fin y) = (if (x = PosInf) = (0 < y) then PosInf else NegInf)"
| "ieee_div x y = NaN"

definition float_div :: "num \<Rightarrow> num \<Rightarrow> exn + pyfloat" where
  "float_div v w =
     (case convert_to_double v of
        Inl e \<Rightarrow> Inl e
      | Inr a \<Rightarrow>
          (case convert_to_double w of
             Inl e \<Rightarrow> Inl e
           | Inr b \<Rightarrow> if b = Fin 0 then Inl ZeroDivisionError else Inr (ieee_div a b)))"

text \<open>\<open>a / b\<close>: \<open>TypeError\<close> unless both operands are numbers.\<close>

definition truediv :: "pyval \<Rightarrow> pyval \<Rightarrow> exn + pyfloat" where
  "truediv a b =
     (case (as_number a, as_number b) of
        (Some (NInt i), Some (NInt j)) \<Rightarrow> long_true_divide i j
      | (Some v, Some w) \<Rightarrow> float_div v w
      | _ \<Rightarrow> Inl TypeError)"

text \<open>
  The function: \<open>try: return a / b\<close> with the two handlers, for \<open>ZeroDivisionError\<close> and for
  \<open>TypeError\<close>, that return \<open>None\<close>. Any other exception escapes.
\<close>

definition safe_div :: "pyval \<Rightarrow> pyval \<Rightarrow> exn + pyfloat option" where
  "safe_div a b =
     (case truediv a b of
        Inr q \<Rightarrow> Inr (Some q)
      | Inl ZeroDivisionError \<Rightarrow> Inr None
      | Inl TypeError \<Rightarrow> Inr None
      | Inl e \<Rightarrow> Inl e)"

text \<open>The words of the claim about the inputs.\<close>

definition is_zero :: "pyval \<Rightarrow> bool" where
  "is_zero b = (b = PInt 0 \<or> b = PBool False \<or> b = PFloat (Fin 0))"

definition is_number :: "pyval \<Rightarrow> bool" where
  "is_number v = (as_number v \<noteq> None)"

fun is_float :: "pyval \<Rightarrow> bool" where
  "is_float (PFloat x) = True"
| "is_float v = False"

fun too_large_for_float :: "pyval \<Rightarrow> bool" where
  "too_large_for_float (PInt i) = (overflow_bound \<le> \<bar>i\<bar>)"
| "too_large_for_float v = False"

fun num_too_large :: "num \<Rightarrow> bool" where
  "num_too_large (NInt i) = (overflow_bound \<le> \<bar>i\<bar>)"
| "num_too_large (NFloat x) = False"

section \<open>src/data\_handling/json\_api.py: normalize\_emails\<close>

text \<open>
  The elements of \<open>emails\<close> are Python values: the comprehension tests each with
  \<open>e and isinstance(e, str)\<close>. \<open>truthy\<close> is Python's truth value of an object.
\<close>

fun truthy :: "pyval \<Rightarrow> bool" where
  "truthy PNone = False"
| "truthy (PBool b) = b"
| "truthy (PInt i) = (i \<noteq> 0)"
| "truthy (PFloat x) = (x \<noteq> Fin 0)"
| "truthy (PStr s) = (s \<noteq> [])"
| "truthy (PList xs) = (xs \<noteq> [])"

fun isinstance_str :: "pyval \<Rightarrow> bool" where
  "isinstance_str (PStr s) = True"
| "isinstance_str v = False"

text \<open>The string of a value that passed the test \<open>isinstance(e, str)\<close>.\<close>

fun str_of :: "pyval \<Rightarrow> string" where
  "str_of (PStr s) = s"
| "str_of v = []"

text \<open>
  \<open>str.isspace\<close> and \<open>str.lower\<close> on the code points 0 to 255: the white space characters
  are the ASCII ones, the four separators 28 to 31, NEL (133) and the no-break space (160);
  the upper case letters are A to Z and the Latin-1 letters 192 to 222 without the
  multiplication sign (215), each 32 below its lower case letter.
\<close>

definition isspace :: "char \<Rightarrow> bool" where
  "isspace c = (of_char c \<in> {9, 10, 11, 12, 13, 28, 29, 30, 31, 32, 133, 160 :: nat})"

definition lower_char :: "char \<Rightarrow> char" where
  "lower_char c =
     (let n = of_char c :: nat
      in if (65 \<le> n \<and> n \<le> 90) \<or> (192 \<le> n \<and> n \<le> 222 \<and> n \<noteq> 215)
         then char_of (n + 32) else c)"

definition lower :: "string \<Rightarrow> string" where
  "lower s = map lower_char s"

definition strip :: "string \<Rightarrow> string" where
  "strip s = rev (dropWhile isspace (rev (dropWhile isspace s)))"

text \<open>The set comprehension, then \<open>sorted\<close>.\<close>

definition normalize_emails :: "pyval list \<Rightarrow> string list" where
  "normalize_emails emails =
     sorted_list_of_set
       (set [lower (strip (str_of e)). e \<leftarrow> emails, truthy e \<and> isinstance_str e])"

section \<open>Theorems\<close>

subsection \<open>grade\<close>

text \<open>
  C9. For every integer score, \<open>grade\<close> returns one of the five letters by the descending
  bands: A from 90 up, B from 80 to 89, C from 70 to 79, D from 60 to 69, F below 60. There
  is no bound on the score, so 1000 is an A and a negative score an F. A lower score never
  gets a better letter: the letters are ordered A, B, C, D, F, which is their alphabetical
  order, and \<open>grade\<close> of the higher score is the alphabetically earlier or the same letter.
  \<open>grade(90)\<close> is A, \<open>grade(89)\<close> is B and \<open>grade(59)\<close> is F.
\<close>

theorem grade_bands:
  "(grade s = ''A'' \<longleftrightarrow> 90 \<le> s)
   \<and> (grade s = ''B'' \<longleftrightarrow> 80 \<le> s \<and> s < 90)
   \<and> (grade s = ''C'' \<longleftrightarrow> 70 \<le> s \<and> s < 80)
   \<and> (grade s = ''D'' \<longleftrightarrow> 60 \<le> s \<and> s < 70)
   \<and> (grade s = ''F'' \<longleftrightarrow> s < 60)
   \<and> grade s \<in> {''A'', ''B'', ''C'', ''D'', ''F''}
   \<and> (\<forall>t. s \<le> t \<longrightarrow> grade t \<le> grade s)
   \<and> grade 90 = ''A'' \<and> grade 89 = ''B'' \<and> grade 59 = ''F''
   \<and> grade 1000 = ''A'' \<and> grade (- 5) = ''F''"
  by (simp add: grade_def)

theorem grade_bands_witness:
  "(59::int) \<le> 90 \<and> grade 90 \<le> grade 59 \<and> grade 59 = ''F'' \<and> grade 90 = ''A''"
  using grade_bands [of 59] by simp

subsection \<open>Equality of user records\<close>

text \<open>
  C1, as the code has it. Two \<open>User\<close> objects are equal exactly when their ids are equal,
  whatever their names, emails and active flags. Two \<open>UserDC\<close> objects are equal exactly
  when all five of their fields are equal: id, name, email, active and fingerprint. A
  \<open>User\<close> and a \<open>UserDC\<close> are never equal, in either order, even with the same id.
\<close>

theorem user_equality:
  "(py_eq (UserObj a) (UserObj b) \<longleftrightarrow> u_id a = u_id b)
   \<and> (py_eq (UserDCObj c) (UserDCObj d) \<longleftrightarrow>
        dc_id c = dc_id d \<and> dc_name c = dc_name d \<and> dc_email c = dc_email d
        \<and> dc_active c = dc_active d \<and> dc_fingerprint c = dc_fingerprint d)
   \<and> \<not> py_eq (UserObj a) (UserDCObj c) \<and> \<not> py_eq (UserDCObj c) (UserObj a)"
  by (simp add: py_eq_def)

text \<open>
  C1 as the specification states it fails for the dataclass: \<open>UserDC(1, "Ann",
  "ann@example.com")\<close> and \<open>UserDC(1, "X", "x@x.com")\<close> have the same id and are not
  equal.
\<close>

theorem user_equality_counterexample:
  "dc_id \<lparr>dc_id = 1, dc_name = ''Ann'', dc_email = ''ann@example.com'', dc_active = True, dc_fingerprint = None\<rparr>
    = dc_id \<lparr>dc_id = 1, dc_name = ''X'', dc_email = ''x@x.com'', dc_active = True, dc_fingerprint = None\<rparr>
   \<and> \<not> py_eq
      (UserDCObj \<lparr>dc_id = 1, dc_name = ''Ann'', dc_email = ''ann@example.com'', dc_active = True, dc_fingerprint = None\<rparr>)
      (UserDCObj \<lparr>dc_id = 1, dc_name = ''X'', dc_email = ''x@x.com'', dc_active = True, dc_fingerprint = None\<rparr>)"
  by (simp add: py_eq_def)

subsection \<open>domain\<close>

lemma split_sep_nonempty: "split_sep sep s \<noteq> []"
  by (induction s) (auto split: list.splits)

lemma getitem_last: "xs \<noteq> [] \<Longrightarrow> getitem xs (- 1) = Inr (last xs)"
  by (cases xs rule: rev_cases) (auto simp: getitem_def Let_def nth_append)

lemma last_split_sep_absent: "sep \<notin> set s \<Longrightarrow> split_sep sep s = [s]"
  by (induction s) auto

lemma split_sep_two_pieces: "sep \<in> set s \<Longrightarrow> 2 \<le> length (split_sep sep s)"
proof (induction s)
  case Nil
  then show ?case by simp
next
  case (Cons c s)
  show ?case
  proof (cases "c = sep")
    case True
    then show ?thesis
      using split_sep_nonempty [of sep s] by (cases "split_sep sep s") auto
  next
    case False
    with Cons have "2 \<le> length (split_sep sep s)" by simp
    with False show ?thesis by (cases "split_sep sep s") auto
  qed
qed

lemma last_split_sep_append:
  "sep \<notin> set d \<Longrightarrow> last (split_sep sep (pre @ sep # d)) = d"
proof (induction pre)
  case Nil
  then show ?case by (simp add: last_split_sep_absent)
next
  case (Cons c pre)
  have two: "2 \<le> length (split_sep sep (pre @ sep # d))"
    by (rule split_sep_two_pieces) simp
  obtain p ps where pieces: "split_sep sep (pre @ sep # d) = p # ps"
    using split_sep_nonempty [of sep "pre @ sep # d"]
    by (cases "split_sep sep (pre @ sep # d)") auto
  from two have more: "ps \<noteq> []"
    by (auto simp: pieces)
  from Cons have "last (p # ps) = d"
    by (simp add: pieces)
  with more show ?case
    by (simp add: pieces)
qed

lemma last_split_sep_present:
  assumes "sep \<in> set s"
  shows "\<exists>pre d. s = pre @ sep # d \<and> sep \<notin> set d \<and> last (split_sep sep s) = d"
proof -
  from split_list_last [OF assms] obtain pre d where s: "s = pre @ sep # d" and d: "sep \<notin> set d"
    by blast
  have l: "last (split_sep sep (pre @ sep # d)) = d"
    using d by (rule last_split_sep_append)
  show ?thesis
  proof (intro exI conjI)
    show "s = pre @ sep # d" by (rule s)
    show "sep \<notin> set d" by (rule d)
    show "last (split_sep sep s) = d" unfolding s by (rule l)
  qed
qed

lemma email_domain_total: "email_domain e = Inr (last (split_sep CHR ''@'' e))"
  unfolding email_domain_def by (rule getitem_last) (rule split_sep_nonempty)

lemma email_domain_at:
  "CHR ''@'' \<in> set e \<Longrightarrow>
     \<exists>pre d. e = pre @ CHR ''@'' # d \<and> CHR ''@'' \<notin> set d \<and> email_domain e = Inr d"
  unfolding email_domain_total sum.inject by (rule last_split_sep_present)

lemma email_domain_no_at:
  assumes "CHR ''@'' \<notin> set e"
  shows "email_domain e = Inr e"
proof -
  have "split_sep CHR ''@'' e = [e]"
    using assms by (rule last_split_sep_absent)
  then show ?thesis
    unfolding email_domain_total by simp
qed

text \<open>
  C10. \<open>domain()\<close> of a \<open>User\<close> and of a \<open>UserDC\<close> returns for every email string and
  never raises: \<open>split\<close> never returns the empty list, so the index \<open>-1\<close> is in range. When
  the email contains an \<open>@\<close> the result is what follows the last one (it contains no
  \<open>@\<close> itself), and when the email contains none the result is the whole email.
\<close>

theorem domain_total:
  "(\<exists>d. User_domain u = Inr d) \<and> (\<exists>d. UserDC_domain dc = Inr d)
   \<and> (CHR ''@'' \<in> set (u_email u) \<longrightarrow>
        (\<exists>pre d. u_email u = pre @ CHR ''@'' # d \<and> CHR ''@'' \<notin> set d \<and> User_domain u = Inr d))
   \<and> (CHR ''@'' \<in> set (dc_email dc) \<longrightarrow>
        (\<exists>pre d. dc_email dc = pre @ CHR ''@'' # d \<and> CHR ''@'' \<notin> set d \<and> UserDC_domain dc = Inr d))
   \<and> (CHR ''@'' \<notin> set (u_email u) \<longrightarrow> User_domain u = Inr (u_email u))
   \<and> (CHR ''@'' \<notin> set (dc_email dc) \<longrightarrow> UserDC_domain dc = Inr (dc_email dc))"
  unfolding User_domain_def UserDC_domain_def
proof (intro conjI impI)
  show "\<exists>d. email_domain (u_email u) = Inr d" by (simp only: email_domain_total) (rule exI, rule refl)
  show "\<exists>d. email_domain (dc_email dc) = Inr d" by (simp only: email_domain_total) (rule exI, rule refl)
qed (erule email_domain_at email_domain_no_at)+

theorem domain_total_witness:
  "CHR ''@'' \<in> set ''ann@x@example.com'' \<and> CHR ''@'' \<notin> set ''nobody''
   \<and> User_domain \<lparr>u_id = 1, u_name = ''Ann'', u_email = ''ann@x@example.com'', u_active = True\<rparr>
       = Inr ''example.com''
   \<and> UserDC_domain \<lparr>dc_id = 2, dc_name = ''Bob'', dc_email = ''nobody'', dc_active = True,
        dc_fingerprint = None\<rparr> = Inr ''nobody''"
proof -
  let ?u = "\<lparr>u_id = 1, u_name = ''Ann'', u_email = ''ann@x@example.com'', u_active = True\<rparr>"
  let ?d = "\<lparr>dc_id = 2, dc_name = ''Bob'', dc_email = ''nobody'', dc_active = True,
        dc_fingerprint = None\<rparr>"
  have a: "CHR ''@'' \<in> set (u_email ?u)" by simp
  have b: "CHR ''@'' \<notin> set (dc_email ?d)" by simp
  note inst = domain_total [of ?u ?d]
  from inst a have at: "\<exists>d. CHR ''@'' \<notin> set d \<and> User_domain ?u = Inr d"
    by blast
  from inst b have no: "UserDC_domain ?d = Inr (dc_email ?d)"
    by blast
  have "User_domain ?u = Inr ''example.com''"
    by (simp add: User_domain_def email_domain_def getitem_def)
  with at no show ?thesis
    by simp
qed

subsection \<open>dedupe\_users\_by\_id\<close>

lemma dedupe_loop_keep_first:
  "dedupe_loop users seen result = result @ keep_first seen users"
  by (induction users arbitrary: seen result) auto

lemma nth_Cons_filter_Suc:
  "map ((!) (u # users)) (filter Q (map Suc xs)) = map ((!) users) (filter (\<lambda>i. Q (Suc i)) xs)"
  by (induction xs) auto

lemma keep_first_index:
  "keep_first seen users =
     map ((!) users)
       (filter (\<lambda>i. obj_id (users ! i) \<notin> seen \<union> obj_id ` set (take i users)) [0..<length users])"
proof (induction users arbitrary: seen)
  case Nil
  then show ?case by simp
next
  case (Cons u users)
  let ?Q = "\<lambda>i. obj_id ((u # users) ! i) \<notin> seen \<union> obj_id ` set (take i (u # users))"
  let ?n = "length users"
  have "[0..<Suc ?n] = 0 # [Suc 0..<Suc ?n]"
    by (rule upt_conv_Cons) simp
  then have upt: "[0..<length (u # users)] = 0 # map Suc [0..<?n]"
    by (simp only: map_Suc_upt length_Cons)
  have tail: "map ((!) (u # users)) (filter ?Q (map Suc [0..<?n]))
      = map ((!) users) (filter (\<lambda>i. ?Q (Suc i)) [0..<?n])"
    by (rule nth_Cons_filter_Suc)
  show ?case
  proof (cases "obj_id u \<in> seen")
    case True
    have cong: "filter (\<lambda>i. obj_id (users ! i) \<notin> seen \<union> obj_id ` set (take i users)) [0..<?n]
        = filter (\<lambda>i. ?Q (Suc i)) [0..<?n]"
      using True by (intro filter_cong refl) auto
    have q0: "filter ?Q (0 # map Suc [0..<?n]) = filter ?Q (map Suc [0..<?n])"
      using True by simp
    have "keep_first seen (u # users) = keep_first seen users"
      using True by simp
    also have "\<dots> = map ((!) users) (filter (\<lambda>i. ?Q (Suc i)) [0..<?n])"
      by (simp only: Cons.IH [of seen] cong)
    also have "\<dots> = map ((!) (u # users)) (filter ?Q (0 # map Suc [0..<?n]))"
      by (simp only: tail q0)
    finally show ?thesis
      by (simp only: upt)
  next
    case False
    have cong: "filter (\<lambda>i. obj_id (users ! i) \<notin> insert (obj_id u) seen \<union> obj_id ` set (take i users))
            [0..<?n]
        = filter (\<lambda>i. ?Q (Suc i)) [0..<?n]"
      by (intro filter_cong refl) auto
    have q0: "filter ?Q (0 # map Suc [0..<?n]) = 0 # filter ?Q (map Suc [0..<?n])"
      using False by simp
    have "keep_first seen (u # users) = u # keep_first (insert (obj_id u) seen) users"
      using False by simp
    also have "\<dots> = u # map ((!) users) (filter (\<lambda>i. ?Q (Suc i)) [0..<?n])"
      by (simp only: Cons.IH [of "insert (obj_id u) seen"] cong)
    also have "\<dots> = map ((!) (u # users)) (0 # filter ?Q (map Suc [0..<?n]))"
      by (simp only: tail list.map nth_Cons_0)
    finally show ?thesis
      by (simp only: upt q0)
  qed
qed

lemma keep_first_ids:
  "obj_id ` set (keep_first seen users) = obj_id ` set users - seen"
  by (induction users arbitrary: seen) auto

lemma keep_first_distinct: "distinct (map obj_id (keep_first seen users))"
  by (induction users arbitrary: seen) (auto simp: keep_first_ids)

lemma keep_first_length:
  "length (keep_first seen users) = card (obj_id ` set users - seen)"
proof -
  have "length (keep_first seen users) = length (map obj_id (keep_first seen users))" by simp
  also have "\<dots> = card (set (map obj_id (keep_first seen users)))"
    using keep_first_distinct distinct_card by metis
  also have "\<dots> = card (obj_id ` set users - seen)"
    by (simp add: keep_first_ids)
  finally show ?thesis .
qed

text \<open>
  C8. \<open>dedupe_users_by_id\<close> returns the records of its input that no earlier record shares
  its id with, in the order of the input: first occurrences keep their order, and a later
  record with an id already seen is dropped, whatever its name and email. The length of the
  result is the number of distinct ids of the input. Deduping three records of which the
  third has the id of the first and the second another id yields the first and the second.
\<close>

theorem dedupe_first_occurrences:
  "dedupe_users_by_id users = first_occurrences users
   \<and> length (dedupe_users_by_id users) = card (obj_id ` set users)
   \<and> (obj_id u1 \<noteq> obj_id u2 \<and> obj_id u3 = obj_id u1 \<longrightarrow>
        dedupe_users_by_id [u1, u2, u3] = [u1, u2])"
proof (intro conjI)
  show "dedupe_users_by_id users = first_occurrences users"
    by (simp add: dedupe_users_by_id_def dedupe_loop_keep_first keep_first_index
        first_occurrences_def)
  show "length (dedupe_users_by_id users) = card (obj_id ` set users)"
    by (simp add: dedupe_users_by_id_def dedupe_loop_keep_first keep_first_length)
  show "obj_id u1 \<noteq> obj_id u2 \<and> obj_id u3 = obj_id u1 \<longrightarrow>
        dedupe_users_by_id [u1, u2, u3] = [u1, u2]"
    by (auto simp: dedupe_users_by_id_def)
qed

theorem dedupe_first_occurrences_witness:
  "obj_id (UserObj \<lparr>u_id = 1, u_name = ''Ann'', u_email = ''ann@example.com'', u_active = True\<rparr>)
     \<noteq> obj_id (UserDCObj \<lparr>dc_id = 2, dc_name = ''Bob'', dc_email = ''bob@example.com'',
          dc_active = False, dc_fingerprint = None\<rparr>)
   \<and> dedupe_users_by_id
       [UserObj \<lparr>u_id = 1, u_name = ''Ann'', u_email = ''ann@example.com'', u_active = True\<rparr>,
        UserDCObj \<lparr>dc_id = 2, dc_name = ''Bob'', dc_email = ''bob@example.com'',
          dc_active = False, dc_fingerprint = None\<rparr>,
        UserObj \<lparr>u_id = 1, u_name = ''Ann-dup'', u_email = ''ann@dup.com'', u_active = True\<rparr>]
     = [UserObj \<lparr>u_id = 1, u_name = ''Ann'', u_email = ''ann@example.com'', u_active = True\<rparr>,
        UserDCObj \<lparr>dc_id = 2, dc_name = ''Bob'', dc_email = ''bob@example.com'',
          dc_active = False, dc_fingerprint = None\<rparr>]"
proof -
  let ?a = "UserObj \<lparr>u_id = 1, u_name = ''Ann'', u_email = ''ann@example.com'', u_active = True\<rparr>"
  let ?b = "UserDCObj \<lparr>dc_id = 2, dc_name = ''Bob'', dc_email = ''bob@example.com'',
          dc_active = False, dc_fingerprint = None\<rparr>"
  let ?c = "UserObj \<lparr>u_id = 1, u_name = ''Ann-dup'', u_email = ''ann@dup.com'', u_active = True\<rparr>"
  have ids: "obj_id ?a \<noteq> obj_id ?b \<and> obj_id ?c = obj_id ?a"
    by simp
  with dedupe_first_occurrences [of "[?a, ?b, ?c]" ?a ?b ?c]
  have "dedupe_users_by_id [?a, ?b, ?c] = [?a, ?b]"
    by blast
  with ids show ?thesis
    by blast
qed

subsection \<open>safe\_div\<close>

lemma round64_5: "round64 5 = 5"
  by (simp add: round64_def floor_log2_def round_half_even_def bit_length.simps Let_def)

lemma to_double_5: "to_double 5 = Fin 5"
  by (simp add: to_double_def round64_5 overflow_bound_def)

lemma overflow_bound_pos: "0 < overflow_bound"
  by (simp add: overflow_bound_def)

lemma to_double_of_int:
  "to_double (of_int i) =
     (if overflow_bound \<le> i then PosInf
      else if i \<le> - overflow_bound then NegInf
      else Fin (round64 (of_int i)))"
proof -
  have "((of_int i :: rat) \<le> - of_int overflow_bound) = (i \<le> - overflow_bound)"
    by (metis of_int_le_iff of_int_minus)
  then show ?thesis
    unfolding to_double_def by simp
qed

lemma convert_int:
  "convert_to_double (NInt i) =
     (if overflow_bound \<le> \<bar>i\<bar> then Inl OverflowError else Inr (Fin (round64 (of_int i))))"
  using overflow_bound_pos
  by (auto simp: convert_to_double.simps to_double_of_int abs_if)

lemma bit_length_lower: "1 \<le> n \<Longrightarrow> 1 \<le> bit_length n \<and> 2 ^ nat (bit_length n - 1) \<le> n"
proof (induction n rule: bit_length.induct)
  case (1 n)
  show ?case
  proof (cases "n = 1")
    case True
    then show ?thesis
      by (simp add: bit_length.simps)
  next
    case False
    with "1.prems" have half: "1 \<le> n div 2" by simp
    from "1.prems" have pos: "\<not> n \<le> 0" by simp
    from "1.IH" [OF pos half]
    have ih: "1 \<le> bit_length (n div 2)" "2 ^ nat (bit_length (n div 2) - 1) \<le> n div 2"
      by simp_all
    have unfold: "bit_length n = 1 + bit_length (n div 2)"
      using pos by (subst bit_length.simps) simp
    have "nat (bit_length (n div 2)) = Suc (nat (bit_length (n div 2) - 1))"
      using ih(1) by simp
    then have "(2::int) ^ nat (bit_length (n div 2)) = 2 * 2 ^ nat (bit_length (n div 2) - 1)"
      by simp
    also have "\<dots> \<le> 2 * (n div 2)"
      using ih(2) by simp
    also have "\<dots> \<le> n"
      by simp
    finally show ?thesis
      using ih(1) by (simp add: unfold)
  qed
qed

lemma round_half_even_ge: "1 \<le> x \<Longrightarrow> 1 \<le> round_half_even x"
proof -
  assume "1 \<le> x"
  then have "1 \<le> \<lfloor>x\<rfloor>" by simp
  then show ?thesis
    unfolding round_half_even_def Let_def by simp
qed

lemma round64_int_nonzero:
  assumes "i \<noteq> 0"
  shows "round64 (of_int i) \<noteq> 0"
proof -
  let ?q = "of_int i :: rat"
  let ?n = "\<bar>i\<bar>"
  from assms have n: "1 \<le> ?n" by simp
  have absq: "\<bar>?q\<bar> = of_int ?n" by simp
  have q1: "1 \<le> \<bar>?q\<bar>"
    using n unfolding absq by (metis of_int_1 of_int_le_iff)
  have "\<lfloor>\<bar>?q\<bar>\<rfloor> = ?n"
    by (metis of_int_abs floor_of_int)
  then have fl: "floor_log2 \<bar>?q\<bar> = bit_length ?n - 1"
    using q1 unfolding floor_log2_def by (simp only: if_True)
  from bit_length_lower [OF n] have bl: "1 \<le> bit_length ?n" and low: "2 ^ nat (bit_length ?n - 1) \<le> ?n"
    by simp_all
  define k where "k = nat (bit_length ?n - 1)"
  have e: "max (floor_log2 \<bar>?q\<bar>) (- 1022) = int k"
    using bl by (simp add: fl k_def)
  let ?ulp = "power_int (2::rat) (int k - 52)"
  have ulp_pos: "0 < ?ulp"
    by (rule zero_less_power_int) simp
  have "?ulp \<le> power_int 2 (int k)"
    by (rule power_int_increasing) simp_all
  also have "\<dots> = 2 ^ k"
    by (rule power_int_of_nat)
  also have "\<dots> \<le> of_int ?n"
    using low unfolding k_def by (metis of_int_le_iff of_int_numeral of_int_power)
  finally have "?ulp \<le> \<bar>?q\<bar>"
    by (simp only: absq)
  with ulp_pos have big: "1 \<le> \<bar>?q\<bar> / ?ulp"
    by (simp only: le_divide_eq_1_pos)
  have rhe: "1 \<le> round_half_even (\<bar>?q\<bar> / power_int 2 (int k - 52))"
    using big by (rule round_half_even_ge)
  have "round64 ?q = sgn ?q * of_int (round_half_even (\<bar>?q\<bar> / ?ulp)) * ?ulp"
    using assms unfolding round64_def Let_def e by (simp only: of_int_eq_0_iff if_False)
  moreover have "sgn ?q \<noteq> 0"
    using assms by (simp only: sgn_eq_0_iff of_int_eq_0_iff not_False_eq_True)
  moreover have "(of_int (round_half_even (\<bar>?q\<bar> / ?ulp)) :: rat) \<noteq> 0"
    using rhe by simp
  moreover have "?ulp \<noteq> 0"
    using ulp_pos by (rule less_imp_neq [THEN not_sym])
  ultimately show ?thesis
    by (simp only: mult_eq_0_iff) blast?
qed


lemma round64_int_eq_0: "round64 (of_int i) = 0 \<longleftrightarrow> i = 0"
  using round64_int_nonzero [of i] by (auto simp: round64_def)

lemma long_true_divide_cases:
  "long_true_divide i j = Inl ZeroDivisionError \<longleftrightarrow> j = 0"
  "long_true_divide i j \<noteq> Inl TypeError"
  "long_true_divide i j = Inl e \<Longrightarrow> e = ZeroDivisionError \<or> e = OverflowError"
  by (auto simp: long_true_divide_def split: pyfloat.splits if_splits)


lemma float_div_zero:
  "float_div v w = Inl ZeroDivisionError \<longleftrightarrow>
     (w = NInt 0 \<or> w = NFloat (Fin 0)) \<and> \<not> num_too_large v"
  using overflow_bound_pos
  by (cases v; cases w) (simp_all add: float_div_def convert_int round64_int_eq_0)

lemma float_div_overflow:
  "float_div v w = Inl OverflowError \<longleftrightarrow> num_too_large v \<or> num_too_large w"
  using overflow_bound_pos
  by (cases v; cases w) (simp_all add: float_div_def convert_int round64_int_eq_0)

lemma float_div_error:
  "float_div v w = Inl e \<Longrightarrow> e = ZeroDivisionError \<or> e = OverflowError"
  by (cases v; cases w) (simp_all add: float_div_def convert_int split: if_splits)


lemma overflow_bound_gt_1: "1 < overflow_bound"
  by (simp add: overflow_bound_def)

lemma truediv_numbers:
  "as_number a = Some v \<Longrightarrow> as_number b = Some w \<Longrightarrow>
     truediv a b = (case (v, w) of (NInt i, NInt j) \<Rightarrow> long_true_divide i j | _ \<Rightarrow> float_div v w)"
  by (cases v; cases w) (simp_all add: truediv_def)

lemma truediv_type:
  "truediv a b = Inl TypeError \<longleftrightarrow> \<not> is_number a \<or> \<not> is_number b"
proof (cases "as_number a")
  case None
  then show ?thesis by (simp add: truediv_def is_number_def)
next
  case (Some v)
  note a = this
  show ?thesis
  proof (cases "as_number b")
    case None
    with a show ?thesis by (cases v) (simp_all add: truediv_def is_number_def)
  next
    case (Some w)
    with a show ?thesis
      using float_div_error [of v w TypeError]
      by (cases v; cases w) (auto simp: truediv_numbers is_number_def long_true_divide_cases)
  qed
qed

lemma as_number_zero:
  "as_number b = Some w \<Longrightarrow> is_zero b \<longleftrightarrow> w = NInt 0 \<or> w = NFloat (Fin 0)"
  by (cases b) (auto simp: is_zero_def)

lemma as_number_float:
  "as_number b = Some w \<Longrightarrow> is_float b \<longleftrightarrow> (\<exists>y. w = NFloat y)"
  by (cases b) auto

lemma as_number_too_large:
  "as_number a = Some v \<Longrightarrow> too_large_for_float a \<longleftrightarrow> num_too_large v"
  using overflow_bound_gt_1 by (cases a) (auto split: if_splits)

lemma truediv_zero:
  "truediv a b = Inl ZeroDivisionError \<longleftrightarrow>
     is_number a \<and> is_number b \<and> is_zero b \<and> \<not> (is_float b \<and> too_large_for_float a)"
proof (cases "as_number a")
  case None
  then show ?thesis by (simp add: truediv_def is_number_def)
next
  case (Some v)
  note a = this
  show ?thesis
  proof (cases "as_number b")
    case None
    with a show ?thesis by (cases v) (simp_all add: truediv_def is_number_def)
  next
    case (Some w)
    note b = this
    have nums: "is_number a" "is_number b"
      using a b by (simp_all add: is_number_def)
    show ?thesis
      unfolding truediv_numbers [OF a b] as_number_zero [OF b] as_number_float [OF b]
        as_number_too_large [OF a]
      using nums
      by (cases v; cases w) (auto simp: long_true_divide_cases float_div_zero)
  qed
qed

lemma truediv_error:
  "truediv a b = Inl e \<Longrightarrow> e = ZeroDivisionError \<or> e = TypeError \<or> e = OverflowError"
proof (cases "as_number a")
  case None
  assume "truediv a b = Inl e"
  with None show ?thesis by (simp add: truediv_def)
next
  case (Some v)
  note a = this
  assume e: "truediv a b = Inl e"
  show ?thesis
  proof (cases "as_number b")
    case None
    with a e show ?thesis by (cases v) (simp_all add: truediv_def)
  next
    case (Some w)
    with a e show ?thesis
      using float_div_error [of v w e] long_true_divide_cases(3) [of _ _ e]
      by (cases v; cases w) (auto simp: truediv_numbers)
  qed
qed

lemma safe_div_eq_None: "safe_div a b = Inr None \<longleftrightarrow>
    truediv a b = Inl ZeroDivisionError \<or> truediv a b = Inl TypeError"
  by (auto simp: safe_div_def split: sum.splits exn.splits)

lemma safe_div_eq_Inl: "safe_div a b = Inl e \<longleftrightarrow>
    truediv a b = Inl e \<and> e \<noteq> ZeroDivisionError \<and> e \<noteq> TypeError"
  by (auto simp: safe_div_def split: sum.splits exn.splits)

text \<open>
  C5, as the code has it. \<open>safe_div(a, b)\<close> returns \<open>None\<close> exactly when \<open>a / b\<close> raises
  \<open>TypeError\<close> or \<open>ZeroDivisionError\<close>: when an operand is not a number, or when \<open>b\<close> is
  zero, unless \<open>b\<close> is a float zero and \<open>a\<close> an int too large for a float. Neither
  \<open>ZeroDivisionError\<close> nor \<open>TypeError\<close> ever reaches the caller. The one exception that
  does is the \<open>OverflowError\<close> of the division, which has no handler. \<open>safe_div(10, 2)\<close> is
  \<open>5.0\<close>, \<open>safe_div(10, 0)\<close> is \<open>None\<close> and \<open>safe_div("x", 2)\<close> is \<open>None\<close>.
\<close>

theorem safe_div_outcomes:
  "(safe_div a b = Inr None \<longleftrightarrow>
      \<not> is_number a \<or> \<not> is_number b \<or> (is_zero b \<and> \<not> (is_float b \<and> too_large_for_float a)))
   \<and> safe_div a b \<noteq> Inl ZeroDivisionError \<and> safe_div a b \<noteq> Inl TypeError
   \<and> (\<forall>e. safe_div a b = Inl e \<longrightarrow> e = OverflowError)
   \<and> safe_div (PInt 10) (PInt 2) = Inr (Some (Fin 5))
   \<and> safe_div (PInt 10) (PInt 0) = Inr None
   \<and> safe_div (PStr ''x'') (PInt 2) = Inr None"
proof (intro conjI allI impI)
  show "safe_div a b = Inr None \<longleftrightarrow>
      \<not> is_number a \<or> \<not> is_number b \<or> (is_zero b \<and> \<not> (is_float b \<and> too_large_for_float a))"
    unfolding safe_div_eq_None truediv_zero truediv_type by blast
  show "safe_div a b \<noteq> Inl ZeroDivisionError" "safe_div a b \<noteq> Inl TypeError"
    by (simp_all add: safe_div_eq_Inl)
  show "e = OverflowError" if "safe_div a b = Inl e" for e
    using that truediv_error [of a b e] by (auto simp: safe_div_eq_Inl)
  show "safe_div (PInt 10) (PInt 2) = Inr (Some (Fin 5))"
    by (simp add: safe_div_def truediv_def long_true_divide_def to_double_5)
  show "safe_div (PInt 10) (PInt 0) = Inr None"
    by (simp add: safe_div_def truediv_def long_true_divide_def)
  show "safe_div (PStr ''x'') (PInt 2) = Inr None"
    by (simp add: safe_div_def truediv_def)
qed

theorem safe_div_outcomes_witness:
  "\<not> (is_float (PInt 0) \<and> too_large_for_float (PInt 10)) \<and> safe_div (PInt 10) (PInt 0) = Inr None"
  using safe_div_outcomes [of "PInt 10" "PInt 0"]
  by (simp add: is_zero_def)

text \<open>
  C5 as the specification states it fails on ints too large for a float. With \<open>a = 10**400\<close>
  and \<open>b = 0.0\<close> the divisor is zero and \<open>safe_div\<close> does not return \<open>None\<close>: the conversion
  of \<open>a\<close> raises \<open>OverflowError\<close> before the divisor is looked at, and the failure of the
  division reaches the caller. So does the one of \<open>10**400 / 1\<close>.
\<close>

theorem safe_div_counterexample:
  "is_zero (PFloat (Fin 0)) \<and> safe_div (PInt (10 ^ 400)) (PFloat (Fin 0)) = Inl OverflowError
   \<and> safe_div (PInt (10 ^ 400)) (PInt 1) = Inl OverflowError"
  by (simp add: is_zero_def safe_div_def truediv_def float_div_def convert_int long_true_divide_def
      to_double_def overflow_bound_def)

subsection \<open>normalize\_emails\<close>

text \<open>
  What holds for every input: the result is sorted and free of duplicates, and its elements
  are the trimmed, lowercased forms of the entries that are non-empty strings. Entries that
  are not strings and the empty string are dropped.
\<close>

lemma normalize_emails_elements:
  "sorted (normalize_emails emails) \<and> distinct (normalize_emails emails)
   \<and> set (normalize_emails emails) = {lower (strip s) |s. PStr s \<in> set emails \<and> s \<noteq> []}"
proof -
  have "{lower (strip (str_of e)) |e. e \<in> set emails \<and> truthy e \<and> isinstance_str e}
      = {lower (strip s) |s. PStr s \<in> set emails \<and> s \<noteq> []}" (is "?A = ?B")
  proof (intro equalityI subsetI)
    fix x assume "x \<in> ?A"
    then obtain e where e: "e \<in> set emails" "truthy e" "isinstance_str e" "x = lower (strip (str_of e))"
      by blast
    from e(3) obtain s where "e = PStr s"
      by (cases e) simp_all
    with e show "x \<in> ?B" by auto
  next
    fix x assume "x \<in> ?B"
    then obtain s where "PStr s \<in> set emails" "s \<noteq> []" "x = lower (strip s)"
      by blast
    then show "x \<in> ?A" by force
  qed
  moreover have "set [lower (strip (str_of e)). e \<leftarrow> emails, truthy e \<and> isinstance_str e]
      = {lower (strip (str_of e)) |e. e \<in> set emails \<and> truthy e \<and> isinstance_str e}"
    by auto
  ultimately have elems:
    "set [lower (strip (str_of e)). e \<leftarrow> emails, truthy e \<and> isinstance_str e] = ?B"
    by (rule trans [rotated])
  have "set (normalize_emails emails)
      = set [lower (strip (str_of e)). e \<leftarrow> emails, truthy e \<and> isinstance_str e]"
    unfolding normalize_emails_def by (rule sorted_list_of_set.set_sorted_key_list_of_set) (rule finite_set)
  moreover have "sorted (normalize_emails emails)" "distinct (normalize_emails emails)"
    unfolding normalize_emails_def by simp_all
  ultimately show ?thesis
    using elems by simp
qed

text \<open>
  C6 fails on the code. An entry of white space only is not empty, so it passes the test
  \<open>e and isinstance(e, str)\<close>, which looks at the entry before it is trimmed; trimmed, it is
  the empty string, and the empty string is an element of the result.
\<close>

theorem normalize_emails_blank_entry:
  "normalize_emails [PStr ''  ''] = [[]]
   \<and> [] \<in> set (normalize_emails [PStr ''a@x.com'', PStr ''  '', PInt 5, PStr []])"
  by code_simp

text \<open>
  C7 fails on the code, by the same defect. Normalizing the list of one blank string yields
  the list of the empty string, and normalizing that yields the empty list: the second
  application drops the empty string that the first one produced. The example of the
  claim holds: \<open>[" A@X.com", "a@x.com"]\<close> yields \<open>["a@x.com"]\<close>.
\<close>

theorem normalize_emails_not_idempotent:
  "normalize_emails (map PStr (normalize_emails [PStr ''  ''])) = []
   \<and> normalize_emails (map PStr (normalize_emails [PStr ''  '']))
       \<noteq> normalize_emails [PStr ''  '']
   \<and> normalize_emails [PStr '' A@X.com'', PStr ''a@x.com''] = [''a@x.com'']"
  by code_simp

end
